theory Spec2Isabelle
  imports
    Complex_Main
    "HOL-Library.Multiset"
    "HOL-Library.Char_ord"
    "HOL-Library.List_Lexorder"
begin

section \<open>Ski world cup nation points: a model of \<^verbatim>\<open>src/app.py\<close>\<close>

text \<open>
  The development embeds the four pure functions of \<^verbatim>\<open>src/app.py\<close>
  (\<^verbatim>\<open>extract_event_id_from_url\<close>, \<^verbatim>\<open>_find_result_items\<close>,
  \<^verbatim>\<open>parse_results_from_json\<close>, \<^verbatim>\<open>compute_points_by_nation\<close>) and the
  constant \<^verbatim>\<open>FIS_POINTS\<close>. Python exceptions are values of a sum type, Python's
  unbounded integers are \<^typ>\<open>int\<close>, and a Python \<^verbatim>\<open>str\<close> is a \<^typ>\<open>string\<close> whose
  characters stand for the code points below 256.
\<close>

subsection \<open>The points table\<close>

text \<open>
  \<^verbatim>\<open>FIS_POINTS = {1: 100, 2: 80, ..., 30: 1}\<close> (lines 9 to 16): a dictionary
  from rank to points.
\<close>

definition FIS_POINTS_items :: "(int \<times> int) list" where
  "FIS_POINTS_items =
     [(1, 100), (2, 80), (3, 60), (4, 50), (5, 45),
      (6, 40), (7, 36), (8, 32), (9, 29), (10, 26),
      (11, 24), (12, 22), (13, 20), (14, 18), (15, 16),
      (16, 15), (17, 14), (18, 13), (19, 12), (20, 11),
      (21, 10), (22, 9), (23, 8), (24, 7), (25, 6),
      (26, 5), (27, 4), (28, 3), (29, 2), (30, 1)]"

definition FIS_POINTS :: "int \<rightharpoonup> int" where
  "FIS_POINTS = map_of FIS_POINTS_items"

text \<open>
  \<^verbatim>\<open>df["Rank"].map(FIS_POINTS).fillna(0).astype(int)\<close> (line 137), for one
  rank: a rank that is no key of the dictionary maps to NaN, which
  \<^verbatim>\<open>fillna(0)\<close> replaces by 0.
\<close>

definition points_of_rank :: "int \<Rightarrow> int" where
  "points_of_rank r = (case FIS_POINTS r of None \<Rightarrow> 0 | Some p \<Rightarrow> p)"

subsection \<open>Python values and exceptions\<close>

text \<open>
  A parsed JSON document as Python holds it: \<^verbatim>\<open>None\<close>, \<^verbatim>\<open>bool\<close>, \<^verbatim>\<open>int\<close>,
  \<^verbatim>\<open>float\<close>, \<^verbatim>\<open>str\<close>, \<^verbatim>\<open>list\<close> and \<^verbatim>\<open>dict\<close>. A finite float is
  represented by the real number it denotes; the three non-finite floats, which
  Python's JSON decoder also produces (\<^verbatim>\<open>NaN\<close>, \<^verbatim>\<open>Infinity\<close>, an
  overflowing literal such as \<^verbatim>\<open>1e999\<close>), are constructors of their own.
  A \<^verbatim>\<open>dict\<close> is the list of its items in insertion order.
\<close>

datatype py_float = Finite real | PosInf | NegInf | NaN

datatype json =
    JNull
  | JBool bool
  | JInt int
  | JFloat py_float
  | JStr string
  | JArr "json list"
  | JObj "(string \<times> json) list"

datatype py_error = TypeError | ValueError | OverflowError | AttributeError

text \<open>Truth value testing, as \<^verbatim>\<open>not x\<close> and \<^verbatim>\<open>x or y\<close> use it.\<close>

fun truthy :: "json \<Rightarrow> bool" where
  "truthy JNull = False"
| "truthy (JBool b) = b"
| "truthy (JInt n) = (n \<noteq> 0)"
| "truthy (JFloat (Finite x)) = (x \<noteq> 0)"
| "truthy (JFloat PosInf) = True"
| "truthy (JFloat NegInf) = True"
| "truthy (JFloat NaN) = True"
| "truthy (JStr s) = (s \<noteq> [])"
| "truthy (JArr xs) = (xs \<noteq> [])"
| "truthy (JObj kvs) = (kvs \<noteq> [])"

definition py_or :: "json \<Rightarrow> json \<Rightarrow> json" where
  "py_or a b = (if truthy a then a else b)"

text \<open>
  \<^verbatim>\<open>obj.get(key, default)\<close>: only a \<^verbatim>\<open>dict\<close> has the method; on every
  other JSON value the attribute lookup raises \<^verbatim>\<open>AttributeError\<close>.
\<close>

fun py_get_default :: "json \<Rightarrow> string \<Rightarrow> json \<Rightarrow> py_error + json" where
  "py_get_default (JObj kvs) k d = Inr (case map_of kvs k of None \<Rightarrow> d | Some v \<Rightarrow> v)"
| "py_get_default _ k d = Inl AttributeError"

text \<open>
  \<^verbatim>\<open>for item in results\<close>: a list yields its elements, a \<^verbatim>\<open>dict\<close> its keys,
  a \<^verbatim>\<open>str\<close> its characters; the other JSON values are not iterable.
\<close>

fun py_iter :: "json \<Rightarrow> py_error + json list" where
  "py_iter (JArr xs) = Inr xs"
| "py_iter (JObj kvs) = Inr (map (\<lambda>kv. JStr (fst kv)) kvs)"
| "py_iter (JStr s) = Inr (map (\<lambda>c. JStr [c]) s)"
| "py_iter _ = Inl TypeError"

subsection \<open>The builtin \<^verbatim>\<open>int\<close>\<close>

definition is_digit :: "char \<Rightarrow> bool" where
  "is_digit c \<longleftrightarrow> c \<in> set ''0123456789''"

definition digit_val :: "char \<Rightarrow> int" where
  "digit_val c = int (of_char c) - 48"

text \<open>
  The white space \<^verbatim>\<open>int\<close> skips around a numeral: tab, line feed, vertical tab,
  form feed, carriage return, space and, among the code points below 256, the two
  Unicode spaces U+0085 and U+00A0.
\<close>

definition is_int_space :: "char \<Rightarrow> bool" where
  "is_int_space c \<longleftrightarrow> (of_char c :: nat) \<in> set [9, 10, 11, 12, 13, 32, 133, 160]"

text \<open>
  \<^verbatim>\<open>str.strip()\<close> removes what \<^verbatim>\<open>str.isspace\<close> accepts: the above and the four
  separators U+001C to U+001F.
\<close>

definition is_space :: "char \<Rightarrow> bool" where
  "is_space c \<longleftrightarrow>
     (of_char c :: nat) \<in> set [9, 10, 11, 12, 13, 28, 29, 30, 31, 32, 133, 160]"

definition strip_with :: "(char \<Rightarrow> bool) \<Rightarrow> string \<Rightarrow> string" where
  "strip_with sp s = rev (dropWhile sp (rev (dropWhile sp s)))"

definition py_strip :: "string \<Rightarrow> string" where
  "py_strip s = strip_with is_space s"

text \<open>
  The digits of a decimal numeral, after its first digit: further digits, each
  optionally preceded by one underscore.
\<close>

fun digits_val :: "int \<Rightarrow> string \<Rightarrow> int option" where
  "digits_val acc [] = Some acc"
| "digits_val acc [c] = (if is_digit c then Some (acc * 10 + digit_val c) else None)"
| "digits_val acc (c # d # cs) =
     (if is_digit c then digits_val (acc * 10 + digit_val c) (d # cs)
      else if c = CHR ''_'' \<and> is_digit d then digits_val (acc * 10 + digit_val d) cs
      else None)"

definition numeral_val :: "string \<Rightarrow> int option" where
  "numeral_val s =
     (case s of [] \<Rightarrow> None
      | c # cs \<Rightarrow> if is_digit c then digits_val (digit_val c) cs else None)"

text \<open>
  The interpreter's limit on the number of digits of a decimal string
  (\<^verbatim>\<open>sys.get_int_max_str_digits()\<close>, 4300 by default): a longer numeral raises
  \<^verbatim>\<open>ValueError\<close>.
\<close>

definition max_str_digits :: nat where
  "max_str_digits = 4300"

definition int_of_str :: "string \<Rightarrow> py_error + int" where
  "int_of_str s =
     (let t = strip_with is_int_space s;
          neg = (case t of [] \<Rightarrow> False | c # _ \<Rightarrow> c = CHR ''-'');
          body = (case t of [] \<Rightarrow> []
                  | c # cs \<Rightarrow> if c = CHR ''-'' \<or> c = CHR ''+'' then cs else t)
      in case numeral_val body of
           None \<Rightarrow> Inl ValueError
         | Some n \<Rightarrow>
             if max_str_digits < length (filter is_digit body) then Inl ValueError
             else Inr (if neg then - n else n))"

text \<open>A finite float converts by truncation toward zero.\<close>

definition py_trunc :: "real \<Rightarrow> int" where
  "py_trunc x = (if 0 \<le> x then \<lfloor>x\<rfloor> else \<lceil>x\<rceil>)"

fun py_int :: "json \<Rightarrow> py_error + int" where
  "py_int JNull = Inl TypeError"
| "py_int (JBool b) = Inr (if b then 1 else 0)"
| "py_int (JInt n) = Inr n"
| "py_int (JFloat (Finite x)) = Inr (py_trunc x)"
| "py_int (JFloat PosInf) = Inl OverflowError"
| "py_int (JFloat NegInf) = Inl OverflowError"
| "py_int (JFloat NaN) = Inl ValueError"
| "py_int (JStr s) = int_of_str s"
| "py_int (JArr xs) = Inl TypeError"
| "py_int (JObj kvs) = Inl TypeError"

text \<open>
  \<^verbatim>\<open>a + b\<close> where one operand is known to be a \<^verbatim>\<open>str\<close>: concatenation when the
  other one is a \<^verbatim>\<open>str\<close> too, \<^verbatim>\<open>TypeError\<close> otherwise.
\<close>

fun py_add_str :: "json \<Rightarrow> json \<Rightarrow> py_error + string" where
  "py_add_str (JStr a) (JStr b) = Inr (a @ b)"
| "py_add_str _ _ = Inl TypeError"

subsection \<open>\<^verbatim>\<open>extract_event_id_from_url\<close>\<close>

text \<open>
  \<^verbatim>\<open>re.search(r"(?:/event/|/sportevents/)(\d+)", url)\<close> (line 30). The search
  tries the start positions from left to right; at a position it tries the first
  marker, then the second, each followed by the longest run of digits, which must
  not be empty. On strings of code points below 256, \<^verbatim>\<open>\d\<close> is one of 0 to 9.
\<close>

definition match_marker :: "string \<Rightarrow> string \<Rightarrow> string option" where
  "match_marker m s =
     (if take (length m) s = m \<and> takeWhile is_digit (drop (length m) s) \<noteq> []
      then Some (takeWhile is_digit (drop (length m) s)) else None)"

definition match_here :: "string \<Rightarrow> string option" where
  "match_here s =
     (case match_marker ''/event/'' s of
        Some d \<Rightarrow> Some d
      | None \<Rightarrow> match_marker ''/sportevents/'' s)"

fun re_search :: "string \<Rightarrow> string option" where
  "re_search [] = match_here []"
| "re_search (c # cs) =
     (case match_here (c # cs) of Some d \<Rightarrow> Some d | None \<Rightarrow> re_search cs)"

definition extract_event_id_from_url :: "string \<Rightarrow> py_error + string" where
  "extract_event_id_from_url url =
     (case re_search url of None \<Rightarrow> Inl ValueError | Some d \<Rightarrow> Inr d)"

subsection \<open>\<^verbatim>\<open>_find_result_items\<close>\<close>

definition has_rank :: "(string \<times> json) list \<Rightarrow> bool" where
  "has_rank kvs \<longleftrightarrow>
     list_ex (\<lambda>k. k \<in> set (map fst kvs)) [''rank'', ''position'', ''place'']"

definition has_nation :: "(string \<times> json) list \<Rightarrow> bool" where
  "has_nation kvs \<longleftrightarrow>
     list_ex (\<lambda>k. k \<in> set (map fst kvs))
       [''nation'', ''nationShort'', ''countryCode'', ''country'']"

text \<open>
  Lines 54 to 81. A \<^verbatim>\<open>dict\<close> is appended when it has a rank key and a nation
  key, then each of its values is searched in turn; a list has each of its elements
  searched; every other value contributes nothing.
\<close>

fun find_result_items :: "json \<Rightarrow> json list" where
  "find_result_items (JObj kvs) =
     (if has_rank kvs \<and> has_nation kvs then [JObj kvs] else [])
     @ concat (map (\<lambda>kv. find_result_items (snd kv)) kvs)"
| "find_result_items (JArr xs) = concat (map find_result_items xs)"
| "find_result_items _ = []"

subsection \<open>\<^verbatim>\<open>parse_results_from_json\<close>\<close>

text \<open>One row of the data frame the function builds: the columns Rank, Nation, Name.\<close>

record ('n, 'm) result_row =
  Rank :: int
  Nation :: 'n
  Name :: 'm

text \<open>
  Lines 96 to 99: \<^verbatim>\<open>int(rank_val)\<close> under
  \<^verbatim>\<open>except (TypeError, ValueError): continue\<close>. \<^term>\<open>Inr None\<close> is the
  \<^verbatim>\<open>continue\<close>; any other exception leaves the function.
\<close>

definition convert_rank :: "json \<Rightarrow> py_error + int option" where
  "convert_rank rank_val =
     (case py_int rank_val of
        Inr rank \<Rightarrow> Inr (Some rank)
      | Inl TypeError \<Rightarrow> Inr None
      | Inl ValueError \<Rightarrow> Inr None
      | Inl e \<Rightarrow> Inl e)"

text \<open>\<^verbatim>\<open>item.get(k)\<close> for an \<^verbatim>\<open>item\<close> that is a \<^verbatim>\<open>dict\<close> with the items \<open>kvs\<close>.\<close>

definition item_get :: "(string \<times> json) list \<Rightarrow> string \<Rightarrow> json" where
  "item_get kvs k = (case map_of kvs k of None \<Rightarrow> JNull | Some v \<Rightarrow> v)"

text \<open>
  Lines 111 to 113:
  \<^verbatim>\<open>item.get("DisplayName") or ((item.get("FirstName") or "") + " " + (item.get("LastName") or "")).strip()\<close>.
\<close>

definition item_name :: "(string \<times> json) list \<Rightarrow> py_error + json" where
  "item_name kvs =
     (if truthy (item_get kvs ''DisplayName'') then Inr (item_get kvs ''DisplayName'')
      else
        case py_add_str (py_or (item_get kvs ''FirstName'') (JStr [])) (JStr '' '') of
          Inl e \<Rightarrow> Inl e
        | Inr a \<Rightarrow>
            (case py_add_str (JStr a) (py_or (item_get kvs ''LastName'') (JStr [])) of
               Inl e \<Rightarrow> Inl e
             | Inr b \<Rightarrow> Inr (JStr (py_strip b))))"

text \<open>
  Lines 95 to 103 of the loop body: the conversion of \<^verbatim>\<open>RankingFinal\<close> and the
  range check \<^verbatim>\<open>if not (1 <= rank <= 30): continue\<close>.
\<close>

definition item_rank :: "(string \<times> json) list \<Rightarrow> py_error + int option" where
  "item_rank kvs =
     (case convert_rank (item_get kvs ''RankingFinal'') of
        Inl e \<Rightarrow> Inl e
      | Inr None \<Rightarrow> Inr None
      | Inr (Some rank) \<Rightarrow> if \<not> (1 \<le> rank \<and> rank \<le> 30) then Inr None else Inr (Some rank))"

text \<open>
  The body of the loop (lines 94 to 121) for one \<^verbatim>\<open>item\<close>: \<^term>\<open>Inr None\<close>
  when the item is skipped, \<^term>\<open>Inr (Some row)\<close> when a row is appended,
  \<^term>\<open>Inl e\<close> when an exception leaves the loop. An item that is no
  \<^verbatim>\<open>dict\<close> has no \<^verbatim>\<open>get\<close>.
\<close>

fun parse_item :: "json \<Rightarrow> py_error + (json, json) result_row option" where
  "parse_item (JObj kvs) =
     (case item_rank kvs of
        Inl e \<Rightarrow> Inl e
      | Inr None \<Rightarrow> Inr None
      | Inr (Some rank) \<Rightarrow>
          if \<not> truthy (item_get kvs ''NationCC3'') then Inr None
          else
            (case item_name kvs of
               Inl e \<Rightarrow> Inl e
             | Inr name \<Rightarrow>
                 Inr (Some \<lparr>Rank = rank, Nation = item_get kvs ''NationCC3'',
                            Name = name\<rparr>)))"
| "parse_item _ = Inl AttributeError"

text \<open>
  The loop over \<^verbatim>\<open>results\<close> (line 93), with the rows in the order of their
  \<^verbatim>\<open>rows.append\<close>; the first exception ends it.
\<close>

fun parse_items :: "json list \<Rightarrow> py_error + (json, json) result_row list" where
  "parse_items [] = Inr []"
| "parse_items (item # items) =
     (case parse_item item of
        Inl e \<Rightarrow> Inl e
      | Inr r \<Rightarrow>
          (case parse_items items of
             Inl e \<Rightarrow> Inl e
           | Inr rows \<Rightarrow> Inr (case r of None \<Rightarrow> rows | Some row \<Rightarrow> row # rows)))"

text \<open>
  \<^verbatim>\<open>DataFrame.sort_values\<close> belongs to the pandas library, and the source calls
  it with the default \<^verbatim>\<open>kind="quicksort"\<close>, which the library documents as
  not stable. The sort is therefore a parameter of the model, and what is known
  of it is its contract: the result holds the same rows and is ordered by the key.
\<close>

definition sorts_by :: "('a \<Rightarrow> int) \<Rightarrow> ('a list \<Rightarrow> 'a list) \<Rightarrow> bool" where
  "sorts_by key sort_values \<longleftrightarrow>
     (\<forall>xs. mset (sort_values xs) = mset xs \<and> sorted (map key (sort_values xs)))"

text \<open>
  A sort that meets the contract and keeps rows of equal key in their input
  order; the examples below are evaluated with it.
\<close>

definition stable_sort_values :: "('a \<Rightarrow> int) \<Rightarrow> 'a list \<Rightarrow> 'a list" where
  "stable_sort_values key xs = sort_key key xs"

text \<open>
  Lines 84 to 128. \<^verbatim>\<open>data\<close> is the parsed document, \<^verbatim>\<open>sort_values\<close> stands
  for \<^verbatim>\<open>df.sort_values("Rank")\<close>.
\<close>

definition parse_results_from_json ::
  "((json, json) result_row list \<Rightarrow> (json, json) result_row list) \<Rightarrow> json
     \<Rightarrow> py_error + (json, json) result_row list" where
  "parse_results_from_json sort_values data =
     (case py_get_default data ''Results'' (JArr []) of
        Inl e \<Rightarrow> Inl e
      | Inr results \<Rightarrow>
          (case py_iter results of
             Inl e \<Rightarrow> Inl e
           | Inr items \<Rightarrow>
               (case parse_items items of
                  Inl e \<Rightarrow> Inl e
                | Inr rows \<Rightarrow> Inr (if rows = [] then [] else sort_values rows))))"

subsection \<open>\<^verbatim>\<open>compute_points_by_nation\<close>\<close>

text \<open>
  Lines 132 to 143, on a data frame that has the columns Rank and Nation, the
  nations being strings. A row of the result is a pair of a nation and its points.

  \<^verbatim>\<open>groupby("Nation", as_index=False)["Points"].sum()\<close>: one row for each
  distinct nation, the nations in ascending order (\<^verbatim>\<open>sort=True\<close> is the
  default of \<^verbatim>\<open>groupby\<close>), with the sum of the points of the nation's rows.
\<close>

definition groupby_sum :: "(string \<times> int) list \<Rightarrow> (string \<times> int) list" where
  "groupby_sum df =
     map (\<lambda>k. (k, sum_list (map snd (filter (\<lambda>row. fst row = k) df))))
       (sort (remdups (map fst df)))"

text \<open>
  \<^verbatim>\<open>sort_values\<close> stands for
  \<^verbatim>\<open>sort_values("Points", ascending=False)\<close>.
\<close>

definition compute_points_by_nation ::
  "((string \<times> int) list \<Rightarrow> (string \<times> int) list) \<Rightarrow> (string, 'm) result_row list
     \<Rightarrow> (string \<times> int) list" where
  "compute_points_by_nation sort_values df =
     sort_values (groupby_sum (map (\<lambda>row. (Nation row, points_of_rank (Rank row))) df))"

section \<open>The specification's notions\<close>

text \<open>
  The two markers of the identifier extractor, and what the specification calls
  a marker followed directly by a decimal digit: \<open>marker_at url i m\<close> says that
  the marker \<open>m\<close> occurs in \<open>url\<close> at position \<open>i\<close> and that a digit comes right
  after it. \<open>digits_after url i m\<close> is the whole run of digits that follows.
\<close>

definition markers :: "string list" where
  "markers = [''/event/'', ''/sportevents/'']"

definition marker_at :: "string \<Rightarrow> nat \<Rightarrow> string \<Rightarrow> bool" where
  "marker_at url i m \<longleftrightarrow>
     m \<in> set markers \<and> take (length m) (drop i url) = m
     \<and> (case drop (i + length m) url of [] \<Rightarrow> False | c # _ \<Rightarrow> is_digit c)"

definition digits_after :: "string \<Rightarrow> nat \<Rightarrow> string \<Rightarrow> string" where
  "digits_after url i m = takeWhile is_digit (drop (i + length m) url)"

text \<open>
  The record discoverer. \<open>subobjects j\<close> lists every object of the tree \<open>j\<close> in
  the order a depth-first walk first meets it: an object before the objects inside
  its values, the values in the order of the object's keys, the elements of an
  array in index order. An object that occurs twice is listed twice.
  \<open>is_candidate\<close> is the heuristic: at least one key of the rank keys and at least
  one key of the nation keys, keys being compared as they are written.
\<close>

fun subobjects :: "json \<Rightarrow> json list" where
  "subobjects (JObj kvs) = JObj kvs # concat (map (\<lambda>kv. subobjects (snd kv)) kvs)"
| "subobjects (JArr xs) = concat (map subobjects xs)"
| "subobjects _ = []"

definition rank_keys :: "string set" where
  "rank_keys = {''rank'', ''position'', ''place''}"

definition nation_keys :: "string set" where
  "nation_keys = {''nation'', ''nationShort'', ''countryCode'', ''country''}"

fun is_candidate :: "json \<Rightarrow> bool" where
  "is_candidate (JObj kvs) \<longleftrightarrow>
     fst ` set kvs \<inter> rank_keys \<noteq> {} \<and> fst ` set kvs \<inter> nation_keys \<noteq> {}"
| "is_candidate _ \<longleftrightarrow> False"

text \<open>
  The result normalizer. For an entry of the results sequence, \<open>entry_rank\<close> is
  the integer its \<^verbatim>\<open>RankingFinal\<close> converts to, provided the conversion succeeds
  and the rank lies in 1 to 30; \<open>entry_nation\<close> is its \<^verbatim>\<open>NationCC3\<close>, provided
  the field is present and not empty (Python's truth value: neither \<^verbatim>\<open>None\<close>,
  \<^verbatim>\<open>False\<close>, zero nor an empty string, list or object). \<open>entry_row\<close> is the
  rank and nation of an entry that meets both conditions.
\<close>

fun entry_rank :: "json \<Rightarrow> int option" where
  "entry_rank (JObj e) =
     (case py_int (item_get e ''RankingFinal'') of
        Inr rank \<Rightarrow> if 1 \<le> rank \<and> rank \<le> 30 then Some rank else None
      | Inl _ \<Rightarrow> None)"
| "entry_rank _ = None"

fun entry_nation :: "json \<Rightarrow> json option" where
  "entry_nation (JObj e) =
     (if truthy (item_get e ''NationCC3'') then Some (item_get e ''NationCC3'') else None)"
| "entry_nation _ = None"

definition entry_row :: "json \<Rightarrow> (int \<times> json) option" where
  "entry_row item =
     (case entry_rank item of
        None \<Rightarrow> None
      | Some rank \<Rightarrow>
          (case entry_nation item of None \<Rightarrow> None | Some nation \<Rightarrow> Some (rank, nation)))"

text \<open>
  The documents on which the normalizer is shown to return: an object whose
  \<^verbatim>\<open>Results\<close>, when the key is present, is a list of objects; in each of them
  \<^verbatim>\<open>RankingFinal\<close> is not an infinite float, and \<^verbatim>\<open>DisplayName\<close> is not empty
  or \<^verbatim>\<open>FirstName\<close> and \<^verbatim>\<open>LastName\<close> are each a string, absent or empty.
\<close>

fun str_or_falsy :: "json \<Rightarrow> bool" where
  "str_or_falsy (JStr s) = True"
| "str_or_falsy v = (\<not> truthy v)"

fun well_formed_entry :: "json \<Rightarrow> bool" where
  "well_formed_entry (JObj e) \<longleftrightarrow>
     item_get e ''RankingFinal'' \<noteq> JFloat PosInf
     \<and> item_get e ''RankingFinal'' \<noteq> JFloat NegInf
     \<and> (truthy (item_get e ''DisplayName'')
        \<or> str_or_falsy (item_get e ''FirstName'') \<and> str_or_falsy (item_get e ''LastName''))"
| "well_formed_entry _ \<longleftrightarrow> False"

fun well_formed_document :: "json \<Rightarrow> bool" where
  "well_formed_document (JObj kvs) \<longleftrightarrow>
     (case map_of kvs ''Results'' of
        None \<Rightarrow> True
      | Some (JArr items) \<Rightarrow> list_all well_formed_entry items
      | Some _ \<Rightarrow> False)"
| "well_formed_document _ \<longleftrightarrow> False"

section \<open>Example inputs\<close>

text \<open>
  Four rows: two nations that differ in case only, a duplicate rank, and a rank
  outside the table.
\<close>

definition example_rows :: "(string, unit) result_row list" where
  "example_rows =
     [\<lparr>Rank = 1, Nation = ''AUT'', Name = ()\<rparr>, \<lparr>Rank = 2, Nation = ''SUI'', Name = ()\<rparr>,
      \<lparr>Rank = 2, Nation = ''AUT'', Name = ()\<rparr>, \<lparr>Rank = 31, Nation = ''aut'', Name = ()\<rparr>]"

text \<open>
  A URL with both markers; the first one is followed by an identifier with
  leading zeros.
\<close>

definition url1 :: string where
  "url1 = ''a/event/007b/sportevents/9''"

text \<open>
  A tree with a matching object nested in a matching object, an object whose rank
  key differs in case, a scalar, and the same matching object twice.
\<close>

definition tree1 :: json where
  "tree1 = JArr [
     JObj [(''rank'', JInt 1),
           (''detail'', JObj [(''place'', JInt 1), (''country'', JStr ''AUT'')]),
           (''nation'', JStr ''AUT'')],
     JObj [(''Rank'', JInt 2), (''nation'', JStr ''SUI'')],
     JInt 3,
     JObj [(''position'', JInt 4), (''countryCode'', JNull)],
     JObj [(''position'', JInt 4), (''countryCode'', JNull)]]"

text \<open>
  A results list: two scoring entries out of rank order, one with a synthesized
  name; a rank outside the window; a rank that is no number; a float rank; an
  empty nation; an entry without fields.
\<close>

definition results1 :: "json list" where
  "results1 =
     [JObj [(''RankingFinal'', JStr ''2''), (''NationCC3'', JStr ''AUT''),
            (''DisplayName'', JStr ''B'')],
      JObj [(''RankingFinal'', JStr ''1''), (''NationCC3'', JStr ''AUT''),
            (''FirstName'', JStr ''Jane''), (''LastName'', JStr ''Doe'')],
      JObj [(''RankingFinal'', JStr ''31''), (''NationCC3'', JStr ''SUI'')],
      JObj [(''RankingFinal'', JStr ''DNF''), (''NationCC3'', JStr ''SUI'')],
      JObj [(''RankingFinal'', JFloat (Finite (57 / 10))), (''NationCC3'', JStr ''ITA''),
            (''DisplayName'', JStr ''C'')],
      JObj [(''RankingFinal'', JInt 3), (''NationCC3'', JStr [])],
      JObj []]"

definition document1 :: json where
  "document1 = JObj [(''Event'', JInt 11986), (''Results'', JArr results1)]"

text \<open>An entry with a valid rank and nation whose first name is a number.\<close>

definition numeric_name_entry :: json where
  "numeric_name_entry =
     JObj [(''RankingFinal'', JInt 1), (''NationCC3'', JStr ''AUT''), (''FirstName'', JInt 7)]"

definition numeric_name_document :: json where
  "numeric_name_document = JObj [(''Results'', JArr [numeric_name_entry])]"


text \<open>An entry whose rank is the float 5.7.\<close>

definition float_rank_entry :: "(string \<times> json) list" where
  "float_rank_entry =
     [(''RankingFinal'', JFloat (Finite (57 / 10))), (''NationCC3'', JStr ''ITA''),
      (''DisplayName'', JStr ''C'')]"

section \<open>Properties\<close>

subsection \<open>The points table\<close>

lemma FIS_POINTS_keys: "map fst FIS_POINTS_items = [1..30]"
  by (simp add: FIS_POINTS_items_def upto_rec1)

lemma FIS_POINTS_dom: "dom FIS_POINTS = {1..30}"
proof -
  have "dom FIS_POINTS = set (map fst FIS_POINTS_items)"
    unfolding FIS_POINTS_def by (simp only: dom_map_of_conv_image_fst set_map)
  then show ?thesis
    by (simp only: FIS_POINTS_keys set_upto)
qed

lemma FIS_POINTS_values:
  "map FIS_POINTS [1..30] =
     map Some [100, 80, 60, 50, 45, 40, 36, 32, 29, 26, 24, 22, 20, 18, 16,
               15, 14, 13, 12, 11, 10, 9, 8, 7, 6, 5, 4, 3, 2, 1]"
  by (simp add: FIS_POINTS_def FIS_POINTS_items_def upto_rec1)

lemma FIS_POINTS_step:
  "r \<in> set [1..29] \<Longrightarrow> the (FIS_POINTS (r + 1)) < the (FIS_POINTS r)"
  by (simp add: upto_rec1 FIS_POINTS_def FIS_POINTS_items_def) (elim disjE; simp)

lemma FIS_POINTS_decreasing:
  assumes "1 \<le> r" "r < s" "s \<le> 30"
  shows "the (FIS_POINTS s) < the (FIS_POINTS r)"
proof -
  have "r < s \<Longrightarrow> s \<le> 30 \<Longrightarrow> the (FIS_POINTS s) < the (FIS_POINTS r)" for s
  proof (induction s rule: int_gr_induct)
    case base
    have "r \<in> set [1..29]" using assms(1) base by simp
    then show ?case by (rule FIS_POINTS_step)
  next
    case (step i)
    have "i \<in> set [1..29]" using assms(1) step by simp
    then have "the (FIS_POINTS (i + 1)) < the (FIS_POINTS i)" by (rule FIS_POINTS_step)
    moreover have "the (FIS_POINTS i) < the (FIS_POINTS r)" using step by simp
    ultimately show ?case by simp
  qed
  then show ?thesis using assms by simp
qed

lemma FIS_POINTS_outside: "\<not> (1 \<le> r \<and> r \<le> 30) \<Longrightarrow> FIS_POINTS r = None"
  using FIS_POINTS_dom by (metis atLeastAtMost_iff domIff)

text \<open>
  Claim C6. The table is defined exactly on the ranks 1 to 30, with the values
  100, 80, 60, 50, 45, 40, 36, 32, 29, 26, 24, 22, 20, 18, 16, 15, 14, 13, 12, 11,
  10, 9, 8, 7, 6, 5, 4, 3, 2, 1 in this order; a larger rank has strictly fewer
  points; a rank outside 1 to 30 has no entry and scores 0 in the aggregation.
\<close>

theorem C6_points_table:
  "dom FIS_POINTS = {1..30}
   \<and> map FIS_POINTS [1..30] =
       map Some [100, 80, 60, 50, 45, 40, 36, 32, 29, 26, 24, 22, 20, 18, 16,
                 15, 14, 13, 12, 11, 10, 9, 8, 7, 6, 5, 4, 3, 2, 1]
   \<and> (\<forall>r s. 1 \<le> r \<and> r < s \<and> s \<le> 30 \<longrightarrow>
          the (FIS_POINTS s) < the (FIS_POINTS r)
          \<and> points_of_rank s < points_of_rank r)
   \<and> (\<forall>r. \<not> (1 \<le> r \<and> r \<le> 30) \<longrightarrow> FIS_POINTS r = None \<and> points_of_rank r = 0)"
proof (intro conjI allI impI)
  show "dom FIS_POINTS = {1..30}" by (rule FIS_POINTS_dom)
  show "map FIS_POINTS [1..30] =
       map Some [100, 80, 60, 50, 45, 40, 36, 32, 29, 26, 24, 22, 20, 18, 16,
                 15, 14, 13, 12, 11, 10, 9, 8, 7, 6, 5, 4, 3, 2, 1]"
    by (rule FIS_POINTS_values)
next
  fix r s :: int
  assume rs: "1 \<le> r \<and> r < s \<and> s \<le> 30"
  then show less: "the (FIS_POINTS s) < the (FIS_POINTS r)"
    by (simp add: FIS_POINTS_decreasing)
  have "r \<in> dom FIS_POINTS" "s \<in> dom FIS_POINTS"
    using rs by (simp_all add: FIS_POINTS_dom)
  then show "points_of_rank s < points_of_rank r"
    using less by (auto simp: points_of_rank_def)
next
  fix r :: int
  assume out: "\<not> (1 \<le> r \<and> r \<le> 30)"
  then show none: "FIS_POINTS r = None" by (rule FIS_POINTS_outside)
  then show "points_of_rank r = 0" by (simp add: points_of_rank_def)
qed

theorem C6_points_table_witness:
  "(1::int) \<le> 3 \<and> (3::int) < 7 \<and> (7::int) \<le> 30
   \<and> points_of_rank 7 < points_of_rank 3
   \<and> points_of_rank 3 = 60 \<and> points_of_rank 7 = 36
   \<and> \<not> (1 \<le> (31::int) \<and> (31::int) \<le> 30) \<and> FIS_POINTS 31 = None
   \<and> points_of_rank 31 = 0"
proof -
  note table = C6_points_table [THEN conjunct2, THEN conjunct2]
  have "points_of_rank 7 < points_of_rank 3"
    using table [THEN conjunct1, rule_format, of 3 7] by simp
  moreover have "FIS_POINTS 31 = None \<and> points_of_rank 31 = 0"
    using table [THEN conjunct2, rule_format, of 31] by simp
  moreover have "points_of_rank 3 = 60 \<and> points_of_rank 7 = 36"
    by (simp add: points_of_rank_def FIS_POINTS_def FIS_POINTS_items_def)
  ultimately show ?thesis by simp
qed

subsection \<open>The contract of the library's sort\<close>

lemma sorts_by_mset: "sorts_by key sv \<Longrightarrow> mset (sv xs) = mset xs"
  by (simp add: sorts_by_def)

lemma sorts_by_sum_list:
  assumes "sorts_by key sv"
  shows "sum_list (map f (sv xs)) = sum_list (map (f :: 'a \<Rightarrow> int) xs)"
proof -
  have "mset (map f (sv xs)) = mset (map f xs)"
    by (simp add: sorts_by_mset [OF assms])
  then show ?thesis by (metis sum_mset_sum_list)
qed

lemma sorts_by_stable: "sorts_by key (stable_sort_values key)"
  by (simp add: sorts_by_def stable_sort_values_def)

subsection \<open>The aggregation\<close>

lemma groupby_sum_keys: "map fst (groupby_sum df) = sort (remdups (map fst df))"
  by (simp add: groupby_sum_def comp_def)

lemma groupby_sum_distinct: "distinct (map fst (groupby_sum df))"
  by (simp add: groupby_sum_keys)

lemma groupby_sum_nations: "set (map fst (groupby_sum df)) = set (map fst df)"
  by (simp add: groupby_sum_keys)

lemma groupby_sum_entry:
  "(n, p) \<in> set (groupby_sum df) \<longleftrightarrow>
     n \<in> set (map fst df) \<and> p = sum_list (map snd (filter (\<lambda>row. fst row = n) df))"
  by (auto simp: groupby_sum_def)

lemma group_sums_total:
  fixes df :: "('k \<times> int) list"
  assumes "finite K" "fst ` set df \<subseteq> K"
  shows "(\<Sum>k\<in>K. sum_list (map snd (filter (\<lambda>row. fst row = k) df))) = sum_list (map snd df)"
  using assms(2)
proof (induction df)
  case Nil
  then show ?case by simp
next
  case (Cons row df)
  have "(\<Sum>k\<in>K. sum_list (map snd (filter (\<lambda>r. fst r = k) (row # df))))
      = (\<Sum>k\<in>K. (if k = fst row then snd row else 0)
                 + sum_list (map snd (filter (\<lambda>r. fst r = k) df)))"
    by (rule sum.cong) auto
  also have "\<dots> = (\<Sum>k\<in>K. if k = fst row then snd row else 0)
                  + (\<Sum>k\<in>K. sum_list (map snd (filter (\<lambda>r. fst r = k) df)))"
    by (rule sum.distrib)
  also have "(\<Sum>k\<in>K. if k = fst row then snd row else 0) = snd row"
    using assms(1) Cons.prems by (simp add: sum.delta)
  also have "(\<Sum>k\<in>K. sum_list (map snd (filter (\<lambda>r. fst r = k) df))) = sum_list (map snd df)"
    using Cons by simp
  finally show ?case by simp
qed

lemma groupby_sum_total: "sum_list (map snd (groupby_sum df)) = sum_list (map snd df)"
proof -
  let ?ks = "sort (remdups (map fst df))"
  have "sum_list (map snd (groupby_sum df))
      = sum_list (map (\<lambda>k. sum_list (map snd (filter (\<lambda>row. fst row = k) df))) ?ks)"
    by (simp add: groupby_sum_def comp_def)
  also have "\<dots> = (\<Sum>k\<in>set ?ks. sum_list (map snd (filter (\<lambda>row. fst row = k) df)))"
    by (rule sum_list_distinct_conv_sum_set) simp
  also have "\<dots> = sum_list (map snd df)"
    by (rule group_sums_total) simp_all
  finally show ?thesis .
qed

text \<open>
  Claim C1. Whatever sort meets the library's contract, the points of the
  returned nation totals add up to the sum, over all input rows (each counted as
  often as it occurs), of the table's points for the row's rank, a rank without
  an entry counting 0.
\<close>

theorem C1_sum_invariant:
  assumes "sorts_by (\<lambda>r. - snd r) sort_values"
  shows "sum_list (map snd (compute_points_by_nation sort_values df))
         = sum_list (map (\<lambda>row. points_of_rank (Rank row)) df)"
proof -
  have "sum_list (map snd (compute_points_by_nation sort_values df))
      = sum_list (map snd (map (\<lambda>row. (Nation row, points_of_rank (Rank row))) df))"
    unfolding compute_points_by_nation_def
    by (simp only: sorts_by_sum_list [OF assms] groupby_sum_total)
  then show ?thesis by (simp add: comp_def)
qed

theorem C1_sum_invariant_witness:
  "sorts_by (\<lambda>r. - snd r) (stable_sort_values (\<lambda>r. - snd r))
   \<and> sum_list (map snd
         (compute_points_by_nation (stable_sort_values (\<lambda>r. - snd r)) example_rows)) = 260
   \<and> sum_list (map (\<lambda>row. points_of_rank (Rank row)) example_rows) = 100 + 80 + 80 + 0"
proof -
  have "sum_list (map (\<lambda>row. points_of_rank (Rank row)) example_rows) = 260"
    by code_simp
  then show ?thesis
    using C1_sum_invariant [OF sorts_by_stable, of example_rows]
    by (simp add: sorts_by_stable)
qed

text \<open>
  Claim C3. The result has exactly one entry for each distinct nation string of
  the input, nations being compared as they are written, and the points of the
  entry are the sum, over the rows of that nation, of the table's points for the
  row's rank, 0 for a rank without an entry.
\<close>

theorem C3_grouping:
  assumes "sorts_by (\<lambda>r. - snd r) sort_values"
  shows "distinct (map fst (compute_points_by_nation sort_values df))
       \<and> set (map fst (compute_points_by_nation sort_values df)) = set (map Nation df)
       \<and> (\<forall>n p. (n, p) \<in> set (compute_points_by_nation sort_values df) \<longleftrightarrow>
             n \<in> set (map Nation df)
             \<and> p = sum_list (map (\<lambda>row. points_of_rank (Rank row))
                                (filter (\<lambda>row. Nation row = n) df)))"
proof -
  let ?pts = "map (\<lambda>row. (Nation row, points_of_rank (Rank row))) df"
  let ?out = "compute_points_by_nation sort_values df"
  have out: "mset ?out = mset (groupby_sum ?pts)"
    unfolding compute_points_by_nation_def by (rule sorts_by_mset [OF assms])
  then have "mset (map fst ?out) = mset (map fst (groupby_sum ?pts))"
    by simp
  then have "distinct (map fst ?out) = distinct (map fst (groupby_sum ?pts))"
    by (rule mset_eq_imp_distinct_iff)
  then have d: "distinct (map fst ?out)"
    by (simp only: groupby_sum_distinct)
  have s: "set ?out = set (groupby_sum ?pts)"
    using out by (rule mset_eq_setD)
  have n: "set (map fst ?out) = set (map Nation df)"
    by (simp add: s groupby_sum_nations [simplified] image_image)
  have f: "map snd (filter (\<lambda>row. fst row = n) ?pts)
         = map (\<lambda>row. points_of_rank (Rank row)) (filter (\<lambda>row. Nation row = n) df)" for n
    by (induction df) simp_all
  have e: "(n, p) \<in> set ?out \<longleftrightarrow>
             n \<in> set (map Nation df)
             \<and> p = sum_list (map (\<lambda>row. points_of_rank (Rank row))
                                (filter (\<lambda>row. Nation row = n) df))" for n p
    unfolding s groupby_sum_entry f by (simp add: comp_def)
  from d n e show ?thesis by blast
qed

theorem C3_grouping_witness:
  "sorts_by (\<lambda>r. - snd r) (stable_sort_values (\<lambda>r. - snd r))
   \<and> distinct (map fst
         (compute_points_by_nation (stable_sort_values (\<lambda>r. - snd r)) example_rows))
   \<and> (''AUT'', 180) \<in> set
         (compute_points_by_nation (stable_sort_values (\<lambda>r. - snd r)) example_rows)
   \<and> (''aut'', 0) \<in> set
         (compute_points_by_nation (stable_sort_values (\<lambda>r. - snd r)) example_rows)
   \<and> compute_points_by_nation (stable_sort_values (\<lambda>r. - snd r)) example_rows
       = [(''AUT'', 180), (''SUI'', 80), (''aut'', 0)]"
proof -
  note grouping = C3_grouping [OF sorts_by_stable, of example_rows]
  have "distinct (map fst
         (compute_points_by_nation (stable_sort_values (\<lambda>r. - snd r)) example_rows))"
    using grouping by blast
  moreover have "''AUT'' \<in> set (map Nation example_rows)
      \<and> 180 = sum_list (map (\<lambda>row. points_of_rank (Rank row))
                          (filter (\<lambda>row. Nation row = ''AUT'') example_rows))"
    by code_simp
  then have "(''AUT'', 180) \<in> set
         (compute_points_by_nation (stable_sort_values (\<lambda>r. - snd r)) example_rows)"
    using grouping by blast
  moreover have "''aut'' \<in> set (map Nation example_rows)
      \<and> 0 = sum_list (map (\<lambda>row. points_of_rank (Rank row))
                        (filter (\<lambda>row. Nation row = ''aut'') example_rows))"
    by code_simp
  then have "(''aut'', 0) \<in> set
         (compute_points_by_nation (stable_sort_values (\<lambda>r. - snd r)) example_rows)"
    using grouping by blast
  moreover have "compute_points_by_nation (stable_sort_values (\<lambda>r. - snd r)) example_rows
       = [(''AUT'', 180), (''SUI'', 80), (''aut'', 0)]"
    by code_simp
  ultimately show ?thesis by (simp only: sorts_by_stable simp_thms)
qed

subsection \<open>The identifier extractor\<close>

lemma takeWhile_nonempty: "takeWhile P xs \<noteq> [] \<longleftrightarrow> (case xs of [] \<Rightarrow> False | x # _ \<Rightarrow> P x)"
  by (cases xs) simp_all

lemma match_marker_Some:
  "match_marker m s = Some d \<longleftrightarrow>
     take (length m) s = m \<and> (case drop (length m) s of [] \<Rightarrow> False | c # _ \<Rightarrow> is_digit c)
     \<and> d = takeWhile is_digit (drop (length m) s)"
  by (auto simp: match_marker_def takeWhile_nonempty)

lemma match_marker_None:
  "match_marker m s = None \<longleftrightarrow>
     \<not> (take (length m) s = m \<and> (case drop (length m) s of [] \<Rightarrow> False | c # _ \<Rightarrow> is_digit c))"
  by (auto simp: match_marker_def takeWhile_nonempty)

lemma markers_exclusive:
  "take (length ''/event/'') s = ''/event/'' \<Longrightarrow> take (length ''/sportevents/'') s \<noteq> ''/sportevents/''"
  by (cases s; cases "tl s") auto

lemma match_here_Some:
  "match_here s = Some d \<longleftrightarrow> (\<exists>m. marker_at s 0 m \<and> d = digits_after s 0 m)"
proof
  assume "match_here s = Some d"
  then consider "match_marker ''/event/'' s = Some d" | "match_marker ''/sportevents/'' s = Some d"
    by (auto simp: match_here_def split: option.splits)
  then show "\<exists>m. marker_at s 0 m \<and> d = digits_after s 0 m"
  proof cases
    case 1
    then have "marker_at s 0 ''/event/'' \<and> d = digits_after s 0 ''/event/''"
      unfolding match_marker_Some marker_at_def digits_after_def markers_def by simp
    then show ?thesis ..
  next
    case 2
    then have "marker_at s 0 ''/sportevents/'' \<and> d = digits_after s 0 ''/sportevents/''"
      unfolding match_marker_Some marker_at_def digits_after_def markers_def by simp
    then show ?thesis ..
  qed
next
  assume "\<exists>m. marker_at s 0 m \<and> d = digits_after s 0 m"
  then obtain m where m: "marker_at s 0 m" "d = digits_after s 0 m" by blast
  then consider "m = ''/event/''" | "m = ''/sportevents/''"
    by (auto simp: marker_at_def markers_def)
  then show "match_here s = Some d"
  proof cases
    case 1
    with m have "match_marker ''/event/'' s = Some d"
      unfolding match_marker_Some marker_at_def digits_after_def by simp
    then show ?thesis by (simp add: match_here_def)
  next
    case 2
    with m have s: "match_marker ''/sportevents/'' s = Some d"
      unfolding match_marker_Some marker_at_def digits_after_def by simp
    from 2 m have "take (length ''/sportevents/'') s = ''/sportevents/''"
      by (simp add: marker_at_def)
    then have "take (length ''/event/'') s \<noteq> ''/event/''"
      using markers_exclusive by blast
    then have "match_marker ''/event/'' s = None"
      unfolding match_marker_None by simp
    with s show ?thesis by (simp add: match_here_def)
  qed
qed

lemma match_here_None: "match_here s = None \<longleftrightarrow> (\<forall>m. \<not> marker_at s 0 m)"
proof -
  have "match_here s = None \<longleftrightarrow> (\<forall>d. match_here s \<noteq> Some d)" by auto
  then show ?thesis unfolding match_here_Some by blast
qed

lemma marker_at_Cons: "marker_at (c # cs) (Suc i) m = marker_at cs i m"
  by (simp add: marker_at_def)

lemma digits_after_Cons: "digits_after (c # cs) (Suc i) m = digits_after cs i m"
  by (simp add: digits_after_def)

lemma marker_at_Nil: "\<not> marker_at [] i m"
  by (simp add: marker_at_def)

lemma re_search_None: "re_search url = None \<longleftrightarrow> (\<forall>i m. \<not> marker_at url i m)"
proof (induction url)
  case Nil
  show ?case by (simp add: match_here_None marker_at_Nil)
next
  case (Cons c cs)
  have "(\<forall>i m. \<not> marker_at (c # cs) i m)
        \<longleftrightarrow> (\<forall>m. \<not> marker_at (c # cs) 0 m) \<and> (\<forall>i m. \<not> marker_at cs i m)"
    (is "?l \<longleftrightarrow> ?r")
  proof
    assume ?l
    then have "\<forall>m. \<not> marker_at (c # cs) 0 m" "\<forall>i m. \<not> marker_at (c # cs) (Suc i) m" by blast+
    then show ?r by (simp add: marker_at_Cons)
  next
    assume r: ?r
    show ?l
    proof (intro allI)
      fix i m show "\<not> marker_at (c # cs) i m"
        using r by (cases i) (simp_all add: marker_at_Cons)
    qed
  qed
  moreover have "re_search (c # cs) = None
        \<longleftrightarrow> match_here (c # cs) = None \<and> re_search cs = None"
    by (simp split: option.splits)
  ultimately show ?case
    by (simp only: Cons.IH match_here_None)
qed

lemma re_search_first:
  "marker_at url i m \<Longrightarrow> (\<forall>j<i. \<forall>m'. \<not> marker_at url j m')
     \<Longrightarrow> re_search url = Some (digits_after url i m)"
proof (induction url arbitrary: i)
  case Nil
  then show ?case by (simp add: marker_at_Nil)
next
  case (Cons c cs)
  show ?case
  proof (cases i)
    case 0
    with Cons.prems(1) have "match_here (c # cs) = Some (digits_after (c # cs) 0 m)"
      unfolding match_here_Some by blast
    with 0 show ?thesis by simp
  next
    case (Suc k)
    with Cons.prems(2) have "\<forall>m'. \<not> marker_at (c # cs) 0 m'" by blast
    then have none: "match_here (c # cs) = None" by (simp add: match_here_None)
    have "marker_at cs k m" using Cons.prems(1) Suc by (simp add: marker_at_Cons)
    moreover have "\<forall>j<k. \<forall>m'. \<not> marker_at cs j m'"
    proof (intro allI impI)
      fix j m' assume "j < k"
      then have "Suc j < i" using Suc by simp
      then have "\<not> marker_at (c # cs) (Suc j) m'" using Cons.prems(2) by blast
      then show "\<not> marker_at cs j m'" by (simp add: marker_at_Cons)
    qed
    ultimately have "re_search cs = Some (digits_after cs k m)" by (rule Cons.IH)
    with none Suc show ?thesis by (simp add: digits_after_Cons)
  qed
qed

lemma digits_after_run:
  assumes "marker_at url i m"
  shows "digits_after url i m \<noteq> [] \<and> (\<forall>c\<in>set (digits_after url i m). is_digit c)
     \<and> (\<exists>rest. drop (i + length m) url = digits_after url i m @ rest
              \<and> (case rest of [] \<Rightarrow> True | c # _ \<Rightarrow> \<not> is_digit c))"
proof -
  let ?s = "drop (i + length m) url"
  have "digits_after url i m \<noteq> []"
    using assms unfolding digits_after_def takeWhile_nonempty marker_at_def by simp
  moreover have "\<forall>c\<in>set (digits_after url i m). is_digit c"
    unfolding digits_after_def by (auto dest: set_takeWhileD)
  moreover have "?s = digits_after url i m @ dropWhile is_digit ?s"
    by (simp add: digits_after_def)
  moreover have "case dropWhile is_digit ?s of [] \<Rightarrow> True | c # _ \<Rightarrow> \<not> is_digit c"
    by (metis (mono_tags, lifting) hd_dropWhile list.case_eq_if)
  ultimately show ?thesis by blast
qed

text \<open>
  Claim C5. The call fails (with \<^verbatim>\<open>ValueError\<close>, the invalid URL condition)
  exactly when no marker followed directly by a digit occurs anywhere in the
  string. Otherwise it returns, for the leftmost position where a marker followed
  by a digit occurs, the whole run of digits after that marker: the run is not
  empty, consists of digits only, keeps its leading zeros, and is not followed by
  a further digit. Every returned identifier is of this kind.
\<close>

theorem C5_extract_event_id:
  "(extract_event_id_from_url url = Inl ValueError \<longleftrightarrow> (\<forall>i m. \<not> marker_at url i m))
   \<and> (\<forall>i m. marker_at url i m \<and> (\<forall>j<i. \<forall>m'. \<not> marker_at url j m') \<longrightarrow>
         extract_event_id_from_url url = Inr (digits_after url i m)
         \<and> digits_after url i m \<noteq> []
         \<and> (\<forall>c\<in>set (digits_after url i m). is_digit c)
         \<and> (\<exists>rest. drop (i + length m) url = digits_after url i m @ rest
                \<and> (case rest of [] \<Rightarrow> True | c # _ \<Rightarrow> \<not> is_digit c)))
   \<and> (\<forall>ident. extract_event_id_from_url url = Inr ident \<longrightarrow>
         (\<exists>i m. marker_at url i m \<and> (\<forall>j<i. \<forall>m'. \<not> marker_at url j m')
                \<and> ident = digits_after url i m))"
proof (intro conjI allI impI)
  show "extract_event_id_from_url url = Inl ValueError \<longleftrightarrow> (\<forall>i m. \<not> marker_at url i m)"
    unfolding re_search_None [symmetric]
    by (simp add: extract_event_id_from_url_def split: option.splits)
next
  fix i m
  assume a: "marker_at url i m \<and> (\<forall>j<i. \<forall>m'. \<not> marker_at url j m')"
  then have "re_search url = Some (digits_after url i m)"
    by (simp add: re_search_first)
  then show "extract_event_id_from_url url = Inr (digits_after url i m)"
    by (simp add: extract_event_id_from_url_def)
  from a have m: "marker_at url i m" by simp
  show "digits_after url i m \<noteq> []"
    using digits_after_run [OF m] by simp
  show "\<exists>rest. drop (i + length m) url = digits_after url i m @ rest
                \<and> (case rest of [] \<Rightarrow> True | c # _ \<Rightarrow> \<not> is_digit c)"
    using digits_after_run [OF m] by simp
  show "\<forall>c\<in>set (digits_after url i m). is_digit c"
    using digits_after_run [OF m] by simp
next
  fix ident
  assume r: "extract_event_id_from_url url = Inr ident"
  then have s: "re_search url = Some ident"
    by (simp add: extract_event_id_from_url_def split: option.splits)
  then have "\<exists>i. \<exists>m. marker_at url i m"
    using re_search_None [of url] by auto
  then obtain i where i: "\<exists>m. marker_at url i m" "\<forall>j<i. \<not> (\<exists>m. marker_at url j m)"
    using exists_least_iff [of "\<lambda>i. \<exists>m. marker_at url i m"] by blast
  then obtain m where m: "marker_at url i m" by blast
  have "re_search url = Some (digits_after url i m)"
    using m i(2) by (intro re_search_first) auto
  with s have "ident = digits_after url i m" by simp
  with m i(2) show "\<exists>i m. marker_at url i m \<and> (\<forall>j<i. \<forall>m'. \<not> marker_at url j m')
                \<and> ident = digits_after url i m"
    by blast
qed

lemma url1_first_marker: "marker_at url1 1 ''/event/'' \<and> (\<forall>j<1. \<forall>m'. \<not> marker_at url1 j m')"
  by (auto simp: marker_at_def url1_def markers_def is_digit_def)

theorem C5_extract_event_id_witness:
  "marker_at url1 1 ''/event/'' \<and> extract_event_id_from_url url1 = Inr ''007''
   \<and> digits_after url1 1 ''/event/'' = ''007''
   \<and> extract_event_id_from_url ''https://sport.orf.at/skialpin/#/event/11986'' = Inr ''11986''
   \<and> extract_event_id_from_url ''https://sport.orf.at/skialpin/#/termine'' = Inl ValueError"
proof -
  have d: "digits_after url1 1 ''/event/'' = ''007''"
    by (simp add: digits_after_def url1_def is_digit_def)
  have "extract_event_id_from_url url1 = Inr (digits_after url1 1 ''/event/'')"
    using C5_extract_event_id [of url1, THEN conjunct2, THEN conjunct1, rule_format, OF url1_first_marker]
    by simp
  moreover have "extract_event_id_from_url ''https://sport.orf.at/skialpin/#/event/11986'' = Inr ''11986''"
    by code_simp
  moreover have "extract_event_id_from_url ''https://sport.orf.at/skialpin/#/termine'' = Inl ValueError"
    by code_simp
  ultimately show ?thesis using url1_first_marker d by simp
qed

subsection \<open>The record discoverer\<close>

lemma has_rank_iff: "has_rank kvs \<longleftrightarrow> fst ` set kvs \<inter> rank_keys \<noteq> {}"
  by (auto simp: has_rank_def rank_keys_def)

lemma has_nation_iff: "has_nation kvs \<longleftrightarrow> fst ` set kvs \<inter> nation_keys \<noteq> {}"
  by (auto simp: has_nation_def nation_keys_def)

lemma find_result_items_filter: "find_result_items j = filter is_candidate (subobjects j)"
proof (induction j rule: find_result_items.induct)
  case (1 kvs)
  have m: "map (\<lambda>kv. find_result_items (snd kv)) kvs
      = map (\<lambda>kv. filter is_candidate (subobjects (snd kv))) kvs"
    using 1 by (intro map_cong) simp_all
  show ?case
    by (simp add: m has_rank_iff has_nation_iff filter_concat comp_def del: map_eq_conv)
next
  case (2 xs)
  have m: "map find_result_items xs = map (\<lambda>x. filter is_candidate (subobjects x)) xs"
    using 2 by (intro map_cong) simp_all
  show ?case by (simp add: m filter_concat comp_def del: map_eq_conv)
qed simp_all

text \<open>
  Claim C9. The discoverer returns exactly the objects of the tree that satisfy
  the heuristic, in the order of the depth-first walk, each as often as it occurs:
  its result is the list of all objects of the tree, filtered by the heuristic.
  A tree without a matching object, and so every scalar, gives the empty list.
\<close>

theorem C9_find_result_items:
  "find_result_items j = filter is_candidate (subobjects j)
   \<and> ((\<forall>obj \<in> set (subobjects j). \<not> is_candidate obj) \<longrightarrow> find_result_items j = [])
   \<and> find_result_items JNull = [] \<and> find_result_items (JBool b) = []
   \<and> find_result_items (JInt n) = [] \<and> find_result_items (JFloat x) = []
   \<and> find_result_items (JStr s) = []"
proof -
  have "(\<forall>obj \<in> set (subobjects j). \<not> is_candidate obj) \<longrightarrow> find_result_items j = []"
    by (simp add: find_result_items_filter)
  then show ?thesis
    by (simp add: find_result_items_filter)
qed

lemma subobjects_tree1:
  "subobjects tree1 =
     [JObj [(''rank'', JInt 1),
            (''detail'', JObj [(''place'', JInt 1), (''country'', JStr ''AUT'')]),
            (''nation'', JStr ''AUT'')],
      JObj [(''place'', JInt 1), (''country'', JStr ''AUT'')],
      JObj [(''Rank'', JInt 2), (''nation'', JStr ''SUI'')],
      JObj [(''position'', JInt 4), (''countryCode'', JNull)],
      JObj [(''position'', JInt 4), (''countryCode'', JNull)]]"
  by (simp add: tree1_def)

theorem C9_find_result_items_witness:
  "find_result_items tree1 =
     [JObj [(''rank'', JInt 1),
            (''detail'', JObj [(''place'', JInt 1), (''country'', JStr ''AUT'')]),
            (''nation'', JStr ''AUT'')],
      JObj [(''place'', JInt 1), (''country'', JStr ''AUT'')],
      JObj [(''position'', JInt 4), (''countryCode'', JNull)],
      JObj [(''position'', JInt 4), (''countryCode'', JNull)]]
   \<and> \<not> is_candidate (JObj [(''Rank'', JInt 2), (''nation'', JStr ''SUI'')])
   \<and> find_result_items (JArr [JInt 3, JObj [(''rank'', JInt 1)]]) = []"
proof -
  have "find_result_items tree1 = filter is_candidate (subobjects tree1)"
    using C9_find_result_items [of tree1] by (rule conjunct1)
  moreover have "\<forall>obj \<in> set (subobjects (JArr [JInt 3, JObj [(''rank'', JInt 1)]])).
      \<not> is_candidate obj"
    by (simp add: nation_keys_def)
  then have "find_result_items (JArr [JInt 3, JObj [(''rank'', JInt 1)]]) = []"
    using C9_find_result_items [of "JArr [JInt 3, JObj [(''rank'', JInt 1)]]"] by blast
  ultimately show ?thesis
    by (simp add: subobjects_tree1 rank_keys_def nation_keys_def)
qed

subsection \<open>The result normalizer\<close>

lemma int_of_str_cases: "int_of_str s = Inl ValueError \<or> (\<exists>n. int_of_str s = Inr n)"
  by (simp add: int_of_str_def Let_def split: option.splits)

lemma py_int_Overflow:
  "py_int v = Inl OverflowError \<longleftrightarrow> v = JFloat PosInf \<or> v = JFloat NegInf"
proof (cases v)
  case (JFloat f)
  then show ?thesis by (cases f) simp_all
next
  case (JStr s)
  then show ?thesis using int_of_str_cases [of s] by auto
qed simp_all

lemma py_int_not_Attribute: "py_int v \<noteq> Inl AttributeError"
proof (cases v)
  case (JFloat f)
  then show ?thesis by (cases f) simp_all
next
  case (JStr s)
  then show ?thesis using int_of_str_cases [of s] by auto
qed simp_all

lemma convert_rank_Inl:
  "convert_rank v = Inl e \<Longrightarrow> v = JFloat PosInf \<or> v = JFloat NegInf"
  using py_int_Overflow [of v] py_int_not_Attribute [of v]
  by (cases e) (auto simp: convert_rank_def split: sum.splits py_error.splits)

lemma convert_rank_skip:
  "convert_rank v = Inr None \<longleftrightarrow> py_int v = Inl TypeError \<or> py_int v = Inl ValueError"
  by (auto simp: convert_rank_def split: sum.splits py_error.splits)

lemma convert_rank_Some: "convert_rank v = Inr (Some r) \<longleftrightarrow> py_int v = Inr r"
  by (auto simp: convert_rank_def split: sum.splits py_error.splits)

lemma item_rank_Some:
  "item_rank e = Inr (Some r) \<longleftrightarrow>
     py_int (item_get e ''RankingFinal'') = Inr r \<and> 1 \<le> r \<and> r \<le> 30"
  by (auto simp: item_rank_def convert_rank_def split: sum.splits option.splits py_error.splits)

lemma item_rank_None:
  "item_rank e = Inr None \<longleftrightarrow>
     py_int (item_get e ''RankingFinal'') = Inl TypeError
     \<or> py_int (item_get e ''RankingFinal'') = Inl ValueError
     \<or> (\<exists>r. py_int (item_get e ''RankingFinal'') = Inr r \<and> \<not> (1 \<le> r \<and> r \<le> 30))"
  by (auto simp: item_rank_def convert_rank_def split: sum.splits option.splits py_error.splits)

lemma item_rank_Inl:
  "item_rank e = Inl err \<Longrightarrow>
     item_get e ''RankingFinal'' = JFloat PosInf \<or> item_get e ''RankingFinal'' = JFloat NegInf"
  by (auto simp: item_rank_def split: sum.splits option.splits if_splits dest: convert_rank_Inl)

lemma str_or_falsy_add:
  "str_or_falsy v \<Longrightarrow> \<exists>s. py_or v (JStr []) = JStr s"
  by (cases v) (auto simp: py_or_def)

lemma item_name_ok:
  assumes "truthy (item_get e ''DisplayName'')
        \<or> str_or_falsy (item_get e ''FirstName'') \<and> str_or_falsy (item_get e ''LastName'')"
  shows "\<exists>name. item_name e = Inr name"
proof (cases "truthy (item_get e ''DisplayName'')")
  case True
  then show ?thesis by (simp add: item_name_def)
next
  case False
  with assms obtain a b where
    "py_or (item_get e ''FirstName'') (JStr []) = JStr a"
    "py_or (item_get e ''LastName'') (JStr []) = JStr b"
    using str_or_falsy_add by blast
  with False show ?thesis by (simp add: item_name_def)
qed

lemma well_formed_entry_returns:
  assumes "well_formed_entry item"
  shows "\<exists>r. parse_item item = Inr r"
proof (cases item)
  case (JObj e)
  with assms have rf: "item_get e ''RankingFinal'' \<noteq> JFloat PosInf"
      "item_get e ''RankingFinal'' \<noteq> JFloat NegInf"
    and nm: "\<exists>name. item_name e = Inr name"
    by (simp_all add: item_name_ok)
  from rf have "\<exists>r. item_rank e = Inr r"
    using item_rank_Inl [of e] by (cases "item_rank e") auto
  with nm JObj show ?thesis
    by (auto split: option.splits)
qed (use assms in simp_all)

lemma well_formed_entries_return:
  "list_all well_formed_entry items \<Longrightarrow> \<exists>rows. parse_items items = Inr rows"
proof (induction items)
  case Nil
  then show ?case by simp
next
  case (Cons item items)
  then obtain r rows where "parse_item item = Inr r" "parse_items items = Inr rows"
    using well_formed_entry_returns [of item] by auto
  then show ?case by simp
qed

lemma well_formed_document_returns:
  assumes "well_formed_document data"
  shows "\<exists>rows. parse_results_from_json sort_values data = Inr rows"
proof (cases data)
  case (JObj kvs)
  show ?thesis
  proof (cases "map_of kvs ''Results''")
    case None
    with JObj show ?thesis by (simp add: parse_results_from_json_def)
  next
    case (Some results)
    with assms JObj obtain items where
      items: "results = JArr items" "list_all well_formed_entry items"
      by (cases results) simp_all
    then obtain rows where "parse_items items = Inr rows"
      using well_formed_entries_return by blast
    with JObj Some items show ?thesis by (simp add: parse_results_from_json_def)
  qed
qed (use assms in simp_all)

lemma parse_item_entry_row:
  "parse_item item = Inr r \<Longrightarrow> map_option (\<lambda>row. (Rank row, Nation row)) r = entry_row item"
proof (cases item)
  case (JObj e)
  assume p: "parse_item item = Inr r"
  show ?thesis
  proof (cases "item_rank e")
    case (Inl err)
    with p JObj show ?thesis by simp
  next
    case (Inr ro)
    show ?thesis
    proof (cases ro)
      case None
      with Inr p JObj have "r = None" by simp
      moreover have "entry_row item = None"
        using Inr None JObj by (auto simp: entry_row_def item_rank_None split: sum.splits)
      ultimately show ?thesis by simp
    next
      case (Some rank)
      with Inr have rk: "py_int (item_get e ''RankingFinal'') = Inr rank" "1 \<le> rank" "rank \<le> 30"
        by (simp_all add: item_rank_Some)
      with p JObj Inr Some show ?thesis
        by (auto simp: entry_row_def split: if_splits sum.splits)
    qed
  qed
qed (simp_all add: entry_row_def)

lemma parse_items_entry_rows:
  "parse_items items = Inr rows \<Longrightarrow>
     map (\<lambda>row. (Rank row, Nation row)) rows = List.map_filter entry_row items"
proof (induction items arbitrary: rows)
  case Nil
  then show ?case by (simp add: List.map_filter_simps)
next
  case (Cons item items)
  from Cons.prems obtain r rest where
    r: "parse_item item = Inr r" and rest: "parse_items items = Inr rest"
    and rows: "rows = (case r of None \<Rightarrow> rest | Some row \<Rightarrow> row # rest)"
    by (auto split: sum.splits)
  have "map (\<lambda>row. (Rank row, Nation row)) rest = List.map_filter entry_row items"
    using rest by (rule Cons.IH)
  moreover have "entry_row item = map_option (\<lambda>row. (Rank row, Nation row)) r"
    using r by (rule parse_item_entry_row [symmetric])
  ultimately show ?case
    using rows by (cases r) (auto simp: List.map_filter_simps)
qed

lemma parse_rows_mset:
  assumes "sorts_by Rank sort_values"
    and "map_of kvs ''Results'' = Some (JArr items)"
    and "parse_results_from_json sort_values (JObj kvs) = Inr rows"
  shows "mset (map (\<lambda>row. (Rank row, Nation row)) rows) = mset (List.map_filter entry_row items)"
proof -
  from assms(2,3) obtain rows0 where
    r0: "parse_items items = Inr rows0" and
    rows: "rows = (if rows0 = [] then [] else sort_values rows0)"
    by (auto simp: parse_results_from_json_def split: sum.splits)
  have "mset rows = mset rows0"
    using rows sorts_by_mset [OF assms(1), of rows0] by simp
  then have "mset (map (\<lambda>row. (Rank row, Nation row)) rows)
           = mset (map (\<lambda>row. (Rank row, Nation row)) rows0)"
    by simp
  then show ?thesis
    by (simp only: parse_items_entry_rows [OF r0])
qed

lemma document1_rows:
  "parse_results_from_json (stable_sort_values Rank) document1 =
     Inr [\<lparr>Rank = 1, Nation = JStr ''AUT'', Name = JStr ''Jane Doe''\<rparr>,
          \<lparr>Rank = 2, Nation = JStr ''AUT'', Name = JStr ''B''\<rparr>,
          \<lparr>Rank = 5, Nation = JStr ''ITA'', Name = JStr ''C''\<rparr>]"
  by code_simp

lemma results1_entry_rows:
  "List.map_filter entry_row results1 = [(2, JStr ''AUT''), (1, JStr ''AUT''), (5, JStr ''ITA'')]"
  by code_simp

lemma document1_well_formed: "well_formed_document document1"
  by code_simp

text \<open>
  Claim C2, as stated, fails: the entry of \<^term>\<open>numeric_name_document\<close> has a
  rank that converts to 1 and the nation AUT, so it meets both conditions, but no
  row is emitted for it: its first name is the number 7, and the concatenation
  with \<^verbatim>\<open>" "\<close> in line 112 raises \<^verbatim>\<open>TypeError\<close>, which leaves the function.
\<close>

theorem C2_numeric_name_counterexample:
  "entry_row numeric_name_entry = Some (1, JStr ''AUT'')
   \<and> parse_results_from_json (stable_sort_values Rank) numeric_name_document = Inl TypeError"
proof -
  have "entry_row numeric_name_entry = Some (1, JStr ''AUT'')"
    by code_simp
  moreover have
    "parse_results_from_json (stable_sort_values Rank) numeric_name_document = Inl TypeError"
    by code_simp
  ultimately show ?thesis by (simp only: simp_thms)
qed

text \<open>
  Claim C2, amended. A document without the key \<^verbatim>\<open>Results\<close> gives the empty
  sequence and no error. A well-formed document makes the normalizer return.
  Whenever the normalizer returns for a document whose \<^verbatim>\<open>Results\<close> is a list,
  the ranks and nations of the returned rows are, counted with multiplicity,
  exactly those of the entries whose \<^verbatim>\<open>RankingFinal\<close> converts to an integer
  in 1 to 30 and whose \<^verbatim>\<open>NationCC3\<close> is present and not empty; every other
  entry contributes no row.
\<close>

theorem C2_rows:
  assumes "sorts_by Rank sort_values"
  shows "(map_of kvs ''Results'' = None \<longrightarrow>
            parse_results_from_json sort_values (JObj kvs) = Inr [])
       \<and> (well_formed_document (JObj kvs) \<longrightarrow>
            (\<exists>rows. parse_results_from_json sort_values (JObj kvs) = Inr rows))
       \<and> (\<forall>items rows. map_of kvs ''Results'' = Some (JArr items)
             \<and> parse_results_from_json sort_values (JObj kvs) = Inr rows \<longrightarrow>
            mset (map (\<lambda>row. (Rank row, Nation row)) rows)
              = mset (List.map_filter entry_row items))"
proof (intro conjI allI impI)
  assume "map_of kvs ''Results'' = None"
  then show "parse_results_from_json sort_values (JObj kvs) = Inr []"
    by (simp add: parse_results_from_json_def)
next
  assume "well_formed_document (JObj kvs)"
  then show "\<exists>rows. parse_results_from_json sort_values (JObj kvs) = Inr rows"
    by (rule well_formed_document_returns)
next
  fix items rows
  assume "map_of kvs ''Results'' = Some (JArr items)
             \<and> parse_results_from_json sort_values (JObj kvs) = Inr rows"
  then show "mset (map (\<lambda>row. (Rank row, Nation row)) rows)
              = mset (List.map_filter entry_row items)"
    using parse_rows_mset [OF assms] by blast
qed

theorem C2_rows_witness:
  "sorts_by Rank (stable_sort_values Rank)
   \<and> well_formed_document document1
   \<and> parse_results_from_json (stable_sort_values Rank) document1 =
       Inr [\<lparr>Rank = 1, Nation = JStr ''AUT'', Name = JStr ''Jane Doe''\<rparr>,
            \<lparr>Rank = 2, Nation = JStr ''AUT'', Name = JStr ''B''\<rparr>,
            \<lparr>Rank = 5, Nation = JStr ''ITA'', Name = JStr ''C''\<rparr>]
   \<and> mset [(1, JStr ''AUT''), (2, JStr ''AUT''), (5, JStr ''ITA'')]
       = mset (List.map_filter entry_row results1)
   \<and> List.map_filter entry_row results1
       = [(2, JStr ''AUT''), (1, JStr ''AUT''), (5, JStr ''ITA'')]
   \<and> parse_results_from_json (stable_sort_values Rank) (JObj [(''Event'', JInt 11986)]) = Inr []"
proof -
  note c2 = C2_rows [OF sorts_by_stable]
  have res: "map_of [(''Event'', JInt 11986), (''Results'', JArr results1)] ''Results''
             = Some (JArr results1)"
    by simp
  have "mset (map (\<lambda>row. (Rank row, Nation row))
          [\<lparr>Rank = 1, Nation = JStr ''AUT'', Name = JStr ''Jane Doe''\<rparr>,
           \<lparr>Rank = 2, Nation = JStr ''AUT'', Name = JStr ''B''\<rparr>,
           \<lparr>Rank = 5, Nation = JStr ''ITA'', Name = JStr ''C''\<rparr>])
        = mset (List.map_filter entry_row results1)"
    using c2 [of "[(''Event'', JInt 11986), (''Results'', JArr results1)]",
              THEN conjunct2, THEN conjunct2, rule_format,
              OF conjI, OF res document1_rows [unfolded document1_def]] .
  then have "mset [(1, JStr ''AUT''), (2, JStr ''AUT''), (5, JStr ''ITA'')]
       = mset (List.map_filter entry_row results1)"
    by simp
  moreover have
    "parse_results_from_json (stable_sort_values Rank) (JObj [(''Event'', JInt 11986)]) = Inr []"
    using c2 [of "[(''Event'', JInt 11986)]", THEN conjunct1] by simp
  ultimately show ?thesis
    by (simp only: sorts_by_stable document1_well_formed document1_rows results1_entry_rows
        simp_thms)
qed




lemma py_trunc_toward_zero:
  "\<bar>real_of_int (py_trunc x)\<bar> \<le> \<bar>x\<bar> \<and> \<bar>x - real_of_int (py_trunc x)\<bar> < 1"
  unfolding py_trunc_def by (cases "0 \<le> x") (simp_all, linarith+)

lemma float_entry_row:
  assumes "item_get e ''RankingFinal'' = JFloat (Finite x)"
    and "1 \<le> py_trunc x" "py_trunc x \<le> 30"
    and "truthy (item_get e ''NationCC3'')"
  shows "entry_row (JObj e) = Some (py_trunc x, item_get e ''NationCC3'')"
  using assms by (simp add: entry_row_def)

lemma entry_row_in_rows:
  assumes "sorts_by Rank sort_values"
    and "map_of kvs ''Results'' = Some (JArr items)"
    and "item \<in> set items"
    and "entry_row item = Some (r, n)"
    and "parse_results_from_json sort_values (JObj kvs) = Inr rows"
  shows "\<exists>row\<in>set rows. Rank row = r \<and> Nation row = n"
proof -
  have "(r, n) \<in> set (List.map_filter entry_row items)"
    using assms(3,4) by (force simp: List.map_filter_def)
  moreover have "set (map (\<lambda>row. (Rank row, Nation row)) rows)
               = set (List.map_filter entry_row items)"
    using parse_rows_mset [OF assms(1,2,5)] by (rule mset_eq_setD)
  ultimately have "(r, n) \<in> set (map (\<lambda>row. (Rank row, Nation row)) rows)"
    by simp
  then show ?thesis by auto
qed

text \<open>
  Claim C10. A \<^verbatim>\<open>RankingFinal\<close> that is a finite float converts without error
  to the integer obtained by truncation toward zero, so the entry is not skipped
  as unparseable: it passes the rank stage of the loop (lines 95 to 103) exactly
  when the truncated rank lies in 1 to 30. The normalizer then keeps the entry
  with the truncated rank: when such an entry of the results list has a nation
  that is not empty, every row sequence the normalizer returns for the document
  holds a row with the truncated rank and the entry's nation, and on a well-formed
  document the normalizer does return one. The conversion stage skips an entry
  exactly when \<^verbatim>\<open>int\<close> raises \<^verbatim>\<open>TypeError\<close> or \<^verbatim>\<open>ValueError\<close>.
\<close>

theorem C10_float_rank:
  "py_int (JFloat (Finite x)) = Inr (py_trunc x)
   \<and> \<bar>real_of_int (py_trunc x)\<bar> \<le> \<bar>x\<bar> \<and> \<bar>x - real_of_int (py_trunc x)\<bar> < 1
   \<and> convert_rank (JFloat (Finite x)) = Inr (Some (py_trunc x))
   \<and> (item_get e ''RankingFinal'' = JFloat (Finite x) \<longrightarrow>
        (item_rank e = Inr (Some (py_trunc x)) \<longleftrightarrow> 1 \<le> py_trunc x \<and> py_trunc x \<le> 30))
   \<and> (item_get e ''RankingFinal'' = JFloat (Finite x)
        \<and> 1 \<le> py_trunc x \<and> py_trunc x \<le> 30
        \<and> truthy (item_get e ''NationCC3'') \<and> item_name e = Inr name \<longrightarrow>
        parse_item (JObj e)
          = Inr (Some \<lparr>Rank = py_trunc x, Nation = item_get e ''NationCC3'', Name = name\<rparr>))
   \<and> (convert_rank v = Inr None \<longleftrightarrow> py_int v = Inl TypeError \<or> py_int v = Inl ValueError)
   \<and> (sorts_by Rank sort_values
        \<and> map_of kvs ''Results'' = Some (JArr items) \<and> JObj e \<in> set items
        \<and> item_get e ''RankingFinal'' = JFloat (Finite x)
        \<and> 1 \<le> py_trunc x \<and> py_trunc x \<le> 30
        \<and> truthy (item_get e ''NationCC3'') \<longrightarrow>
        (\<forall>rows. parse_results_from_json sort_values (JObj kvs) = Inr rows \<longrightarrow>
           (\<exists>row\<in>set rows. Rank row = py_trunc x \<and> Nation row = item_get e ''NationCC3''))
        \<and> (well_formed_document (JObj kvs) \<longrightarrow>
           (\<exists>rows. parse_results_from_json sort_values (JObj kvs) = Inr rows
              \<and> (\<exists>row\<in>set rows. Rank row = py_trunc x
                     \<and> Nation row = item_get e ''NationCC3''))))"
proof -
  have conv: "py_int (JFloat (Finite x)) = Inr (py_trunc x)"
    "convert_rank (JFloat (Finite x)) = Inr (Some (py_trunc x))"
    by (simp_all add: convert_rank_def)
  have trunc: "\<bar>real_of_int (py_trunc x)\<bar> \<le> \<bar>x\<bar>" "\<bar>x - real_of_int (py_trunc x)\<bar> < 1"
    using py_trunc_toward_zero [of x] by simp_all
  have stage: "item_rank e = Inr (Some (py_trunc x)) \<longleftrightarrow> 1 \<le> py_trunc x \<and> py_trunc x \<le> 30"
    if "item_get e ''RankingFinal'' = JFloat (Finite x)"
    using that by (simp add: item_rank_Some)
  have row: "parse_item (JObj e)
          = Inr (Some \<lparr>Rank = py_trunc x, Nation = item_get e ''NationCC3'', Name = name\<rparr>)"
    if a: "item_get e ''RankingFinal'' = JFloat (Finite x)
        \<and> 1 \<le> py_trunc x \<and> py_trunc x \<le> 30
        \<and> truthy (item_get e ''NationCC3'') \<and> item_name e = Inr name"
  proof -
    from a have "item_rank e = Inr (Some (py_trunc x))"
      by (simp add: item_rank_Some)
    with a show ?thesis by simp
  qed
  have skip: "convert_rank v = Inr None \<longleftrightarrow> py_int v = Inl TypeError \<or> py_int v = Inl ValueError"
    by (rule convert_rank_skip)
  have kept: "\<exists>row\<in>set rows. Rank row = py_trunc x \<and> Nation row = item_get e ''NationCC3''"
    if h: "sorts_by Rank sort_values
        \<and> map_of kvs ''Results'' = Some (JArr items) \<and> JObj e \<in> set items
        \<and> item_get e ''RankingFinal'' = JFloat (Finite x)
        \<and> 1 \<le> py_trunc x \<and> py_trunc x \<le> 30
        \<and> truthy (item_get e ''NationCC3'')"
      and r: "parse_results_from_json sort_values (JObj kvs) = Inr rows" for rows
  proof -
    from h have s: "sorts_by Rank sort_values"
      and k: "map_of kvs ''Results'' = Some (JArr items)"
      and i: "JObj e \<in> set items"
      by blast+
    from h have "entry_row (JObj e) = Some (py_trunc x, item_get e ''NationCC3'')"
      by (simp add: float_entry_row)
    then show ?thesis
      using r by (rule entry_row_in_rows [OF s k i])
  qed
  have returns: "\<exists>rows. parse_results_from_json sort_values (JObj kvs) = Inr rows
              \<and> (\<exists>row\<in>set rows. Rank row = py_trunc x
                     \<and> Nation row = item_get e ''NationCC3'')"
    if h: "sorts_by Rank sort_values
        \<and> map_of kvs ''Results'' = Some (JArr items) \<and> JObj e \<in> set items
        \<and> item_get e ''RankingFinal'' = JFloat (Finite x)
        \<and> 1 \<le> py_trunc x \<and> py_trunc x \<le> 30
        \<and> truthy (item_get e ''NationCC3'')"
      and w: "well_formed_document (JObj kvs)"
  proof -
    from w obtain rows where "parse_results_from_json sort_values (JObj kvs) = Inr rows"
      using well_formed_document_returns by blast
    with kept [OF h] show ?thesis by blast
  qed
  from conv trunc stage row skip kept returns show ?thesis
    by (intro conjI impI allI) blast+
qed

theorem C10_float_rank_witness:
  "item_get float_rank_entry ''RankingFinal'' = JFloat (Finite (57 / 10))
   \<and> py_trunc (57 / 10) = 5
   \<and> truthy (item_get float_rank_entry ''NationCC3'')
   \<and> item_name float_rank_entry = Inr (JStr ''C'')
   \<and> parse_item (JObj float_rank_entry)
       = Inr (Some \<lparr>Rank = 5, Nation = JStr ''ITA'', Name = JStr ''C''\<rparr>)
   \<and> py_int (JFloat (Finite (- 57 / 10))) = Inr (- 5)
   \<and> sorts_by Rank (stable_sort_values Rank)
   \<and> JObj float_rank_entry \<in> set results1
   \<and> well_formed_document document1
   \<and> (\<exists>rows. parse_results_from_json (stable_sort_values Rank) document1 = Inr rows
         \<and> (\<exists>row\<in>set rows. Rank row = 5 \<and> Nation row = JStr ''ITA''))
   \<and> parse_results_from_json (stable_sort_values Rank) document1 =
       Inr [\<lparr>Rank = 1, Nation = JStr ''AUT'', Name = JStr ''Jane Doe''\<rparr>,
            \<lparr>Rank = 2, Nation = JStr ''AUT'', Name = JStr ''B''\<rparr>,
            \<lparr>Rank = 5, Nation = JStr ''ITA'', Name = JStr ''C''\<rparr>]"
proof -
  have t: "py_trunc (57 / 10) = 5"
    by (simp add: py_trunc_def)
  have g: "item_get float_rank_entry ''RankingFinal'' = JFloat (Finite (57 / 10))"
    "item_get float_rank_entry ''NationCC3'' = JStr ''ITA''"
    by (simp_all add: item_get_def float_rank_entry_def)
  have n: "item_name float_rank_entry = Inr (JStr ''C'')"
    by (simp add: item_name_def item_get_def float_rank_entry_def)
  have m: "JObj float_rank_entry \<in> set results1"
    by (simp add: results1_def float_rank_entry_def)
  have res: "map_of [(''Event'', JInt 11986), (''Results'', JArr results1)] ''Results''
             = Some (JArr results1)"
    by simp
  note c10 = C10_float_rank [of "57 / 10" float_rank_entry "JStr ''C''" _
      "stable_sort_values Rank" "[(''Event'', JInt 11986), (''Results'', JArr results1)]"
      results1]
  have "parse_item (JObj float_rank_entry)
      = Inr (Some \<lparr>Rank = py_trunc (57 / 10),
                    Nation = item_get float_rank_entry ''NationCC3'', Name = JStr ''C''\<rparr>)"
    using c10 [THEN conjunct2, THEN conjunct2, THEN conjunct2, THEN conjunct2, THEN conjunct2,
            THEN conjunct1]
    by (simp add: t g n)
  moreover have "\<exists>rows. parse_results_from_json (stable_sort_values Rank) document1 = Inr rows
         \<and> (\<exists>row\<in>set rows. Rank row = 5 \<and> Nation row = JStr ''ITA'')"
    using c10 [THEN conjunct2, THEN conjunct2, THEN conjunct2, THEN conjunct2, THEN conjunct2,
            THEN conjunct2, THEN conjunct2]
      document1_well_formed [unfolded document1_def]
    by (simp add: t g m res sorts_by_stable document1_def)
  moreover have "py_int (JFloat (Finite (- 57 / 10))) = Inr (- 5)"
    by (simp add: py_trunc_def)
  ultimately show ?thesis
    by (simp add: t g n m sorts_by_stable document1_well_formed document1_rows)
qed

end
